theory Spec2Isabelle
  imports Complex_Main "HOL-Library.AList" "HOL-Library.Char_ord" "HOL-Library.List_Lexorder"
    "HOL-Library.Sublist"
begin

section \<open>The partitioner: \<open>chunkify\<close> of \<open>batch_clamp3.py\<close>\<close>

text \<open>
  Exceptions of the Python run time that the two scripts can raise on their own account.
\<close>

datatype py_error = ZeroDivisionError | FileNotFoundError

text \<open>
  \<^verbatim>\<open>math.ceil(len(files) / n)\<close>: true division of two integers, which raises on a zero
  divisor, followed by the ceiling. The quotient is taken in the reals: a corpus has far
  fewer than \<open>2^53\<close> files, and below that bound the ceiling of the floating-point quotient
  is the ceiling of the exact one.
\<close>

definition ceil_div :: "int \<Rightarrow> int \<Rightarrow> py_error + int" where
  "ceil_div a b = (if b = 0 then Inl ZeroDivisionError
                   else Inr \<lceil>(of_int a :: real) / of_int b\<rceil>)"

text \<open>
  A Python slice \<^verbatim>\<open>xs[a:b]\<close>: a negative bound counts from the end, and both bounds are
  clamped to the list.
\<close>

definition slice_bound :: "nat \<Rightarrow> int \<Rightarrow> nat" where
  "slice_bound len a = (if a < 0 then nat (max (a + int len) 0) else min (nat a) len)"

definition py_slice :: "'a list \<Rightarrow> int \<Rightarrow> int \<Rightarrow> 'a list" where
  "py_slice xs a b =
     (let lo = slice_bound (length xs) a; hi = slice_bound (length xs) b
      in take (hi - lo) (drop lo xs))"

text \<open>
  \<^verbatim>\<open>
  def chunkify(files, n):
      k = math.ceil(len(files) / n)
      for i in range(n):
          yield files[i*k : (i+1)*k]
  \<close>
  The generator is consumed completely by its only caller; the list below is what it yields,
  and \<open>Inl\<close> is the exception it raises when its first element is asked for.
\<close>

definition chunkify :: "'a list \<Rightarrow> int \<Rightarrow> py_error + 'a list list" where
  "chunkify files n =
     (case ceil_div (int (length files)) n of
        Inl e \<Rightarrow> Inl e
      | Inr k \<Rightarrow> Inr (map (\<lambda>i. py_slice files (i * k) ((i + 1) * k)) [0..n - 1]))"

text \<open>The slice length \<^verbatim>\<open>k\<close> of \<open>chunkify\<close>, for a corpus of \<open>len\<close> files and a positive \<open>n\<close>.\<close>

definition chunk_len :: "nat \<Rightarrow> int \<Rightarrow> nat" where
  "chunk_len len n = nat \<lceil>real len / of_int n\<rceil>"

section \<open>The file system, as both scripts see it\<close>

text \<open>
  The scripts touch three disjoint areas: the tree under \<^verbatim>\<open>src_dir\<close>, the chunk
  directories directly under \<^verbatim>\<open>work_dir\<close>, and the chunk directories directly under
  \<^verbatim>\<open>out_root\<close> (which the merge script reads as its \<^verbatim>\<open>in_root\<close>). The three roots
  are taken to be distinct and not nested in one another, every entry is a regular file, and
  the I/O primitives themselves succeed whenever the file they read exists.

  A directory is an association list from entry names to file contents, in the order in
  which the operating system lists it.
\<close>

type_synonym content = string
type_synonym dir = "(string \<times> content) list"

text \<open>A file below \<^verbatim>\<open>src_dir\<close>: the directories leading to it, and its name (\<^verbatim>\<open>f.name\<close>).\<close>

type_synonym path = "string list \<times> string"

definition parts :: "path \<Rightarrow> string list" where
  "parts p = fst p @ [snd p]"

text \<open>
  \<^verbatim>\<open>f"chunk_{idx:02d}"\<close>: the index in decimal, padded with zeros to two digits.
\<close>

definition digit_char :: "nat \<Rightarrow> char" where
  "digit_char d = char_of (48 + d)"

fun decimal :: "nat \<Rightarrow> string" where
  "decimal n = (if n < 10 then [digit_char n] else decimal (n div 10) @ [digit_char (n mod 10)])"

declare decimal.simps [simp del]

definition fmt_02d :: "nat \<Rightarrow> string" where
  "fmt_02d n = (let s = decimal n in replicate (2 - length s) CHR ''0'' @ s)"

definition chunk_name :: "nat \<Rightarrow> string" where
  "chunk_name idx = ''chunk_'' @ fmt_02d idx"

section \<open>The orchestrator: \<open>main\<close> of \<open>batch_clamp3.py\<close>\<close>

record args =
  chunks :: int
  move :: bool

datatype message =
    No_mp3_found
  | Already_processed nat
  | Processing nat nat
  | Script_failed nat int
  | Rerun_hint
  | All_finished
  | Merge_hint int

text \<open>
  What a run does, in order: the chunk directories it creates, the files it transfers
  (source file, chunk directory, target name), what it prints, and the worker processes it
  starts (with their two directory arguments).
\<close>

datatype event =
    Mkdir string
  | Copy2 path string string
  | Move path string string
  | Print message
  | Run string string

record world =
  source :: "(path \<times> content) list"
  work_exists :: bool
  work :: "string \<rightharpoonup> dir"
  out_exists :: bool
  out :: "string \<rightharpoonup> dir"
  log :: "event list"

text \<open>How the process ends: exit status 0, one of the two \<^verbatim>\<open>sys.exit\<close> calls, or an
  exception that nothing catches.\<close>

datatype exit =
    Exit0
  | Sys_exit_no_input
  | Sys_exit_failed nat int
  | Uncaught py_error

fun exit_status :: "exit \<Rightarrow> nat" where
  "exit_status Exit0 = 0"
| "exit_status Sys_exit_no_input = 1"
| "exit_status (Sys_exit_failed idx code) = 1"
| "exit_status (Uncaught e) = 1"

text \<open>
  Modelled from the spec: the external worker \<^verbatim>\<open>clamp3_embd.py\<close>, which is not among the
  sources. It is started with the chunk's input and output directory, reads the input
  directory (\<open>None\<close> when there is none), and returns its exit status and what it leaves at
  the output directory: \<open>None\<close> when it has not created it, the directory's content
  otherwise. It writes nowhere else.
\<close>

type_synonym worker = "string \<Rightarrow> string \<Rightarrow> dir option \<Rightarrow> int \<times> dir option"

text \<open>\<^verbatim>\<open>"*.mp3"\<close>, as \<^verbatim>\<open>rglob\<close> and \<^verbatim>\<open>glob\<close> match it against an entry's name.\<close>

definition is_mp3 :: "string \<Rightarrow> bool" where
  "is_mp3 nm = suffix ''.mp3'' nm"

text \<open>\<^verbatim>\<open>sorted([p for p in src_dir.rglob("*.mp3")])\<close>: paths compare by their parts.\<close>

definition discover :: "(path \<times> content) list \<Rightarrow> path list" where
  "discover tree = sort_key parts (filter (\<lambda>p. is_mp3 (snd p)) (map fst tree))"

text \<open>
  \<^verbatim>\<open>
  target = chunk_in / f.name
  if args.move: shutil.move(str(f), target)
  else:         shutil.copy2(f, target)
  \<close>
  An existing target of that name is replaced.
\<close>

definition transfer :: "bool \<Rightarrow> string \<Rightarrow> path \<Rightarrow> world \<Rightarrow> world \<times> py_error option" where
  "transfer mv chunk_in f s =
     (case map_of (source s) f of
        None \<Rightarrow> (s, Some FileNotFoundError)
      | Some c \<Rightarrow>
          (case work s chunk_in of
             None \<Rightarrow> (s, Some FileNotFoundError)
           | Some d \<Rightarrow>
               (s\<lparr>source := (if mv then AList.delete f (source s) else source s),
                  work := (work s)(chunk_in \<mapsto> AList.update (snd f) c d),
                  log := log s @ [if mv then Move f chunk_in (snd f) else Copy2 f chunk_in (snd f)]\<rparr>,
                None)))"

fun transfer_all :: "bool \<Rightarrow> string \<Rightarrow> path list \<Rightarrow> world \<Rightarrow> world \<times> py_error option" where
  "transfer_all mv chunk_in [] s = (s, None)"
| "transfer_all mv chunk_in (f # fs) s =
     (case transfer mv chunk_in f s of
        (s', None) \<Rightarrow> transfer_all mv chunk_in fs s'
      | (s', Some e) \<Rightarrow> (s', Some e))"

text \<open>
  \<^verbatim>\<open>
  chunk_in = work_dir / f"chunk_{idx:02d}"
  if not chunk_in.exists():
      chunk_in.mkdir(parents=True)
      for f in group: ...
  \<close>
\<close>

definition materialize :: "bool \<Rightarrow> nat \<times> path list \<Rightarrow> world \<Rightarrow> world \<times> py_error option" where
  "materialize mv ig s =
     (let chunk_in = chunk_name (fst ig)
      in if work s chunk_in \<noteq> None then (s, None)
         else transfer_all mv chunk_in (snd ig)
                (s\<lparr>work := (work s)(chunk_in \<mapsto> []), log := log s @ [Mkdir chunk_in]\<rparr>))"

fun materialize_all :: "bool \<Rightarrow> (nat \<times> path list) list \<Rightarrow> world \<Rightarrow> world \<times> py_error option" where
  "materialize_all mv [] s = (s, None)"
| "materialize_all mv (ig # igs) s =
     (case materialize mv ig s of
        (s', None) \<Rightarrow> materialize_all mv igs s'
      | (s', Some e) \<Rightarrow> (s', Some e))"

text \<open>\<^verbatim>\<open>len(list(chunk_in.glob('*.mp3')))\<close>; globbing a directory that is not there yields nothing.\<close>

definition glob_count :: "dir option \<Rightarrow> nat" where
  "glob_count d = (case d of None \<Rightarrow> 0 | Some es \<Rightarrow> length (filter (\<lambda>e. is_mp3 (fst e)) es))"

text \<open>
  The third loop of \<open>main\<close>, over \<^verbatim>\<open>range(num_chunks)\<close>. It returns the index and exit
  status of the worker that failed, if one did; \<^verbatim>\<open>subprocess.run(..., check=True)\<close> raises
  exactly when the status is not 0.
\<close>

fun process :: "worker \<Rightarrow> nat list \<Rightarrow> world \<Rightarrow> world \<times> (nat \<times> int) option" where
  "process w [] s = (s, None)"
| "process w (idx # rest) s =
     (let chunk_in = chunk_name idx; chunk_out = chunk_name idx
      in if out s chunk_out \<noteq> None
         then process w rest (s\<lparr>log := log s @ [Print (Already_processed idx)]\<rparr>)
         else
           (let r = w chunk_in chunk_out (work s chunk_in);
                s' = s\<lparr>out := (case snd r of None \<Rightarrow> out s | Some d \<Rightarrow> (out s)(chunk_out \<mapsto> d)),
                       log := log s @ [Print (Processing idx (glob_count (work s chunk_in))),
                                       Run chunk_in chunk_out]\<rparr>
            in if fst r \<noteq> 0
               then (s'\<lparr>log := log s' @ [Print (Script_failed idx (fst r)), Print Rerun_hint]\<rparr>,
                     Some (idx, fst r))
               else process w rest s'))"

declare process.simps(2) [simp del]

text \<open>
  \<open>main\<close> of \<^verbatim>\<open>batch_clamp3.py\<close>, on the file system \<open>s\<close> and with the worker \<open>w\<close>:
  \<^verbatim>\<open>
  mp3s = sorted([p for p in src_dir.rglob("*.mp3")])
  if not mp3s:
      sys.exit(f"No mp3 files found in {src_dir}")
  work_dir.mkdir(parents=True, exist_ok=True)
  for idx, group in enumerate(chunkify(mp3s, num_chunks)): ...
  out_root.mkdir(parents=True, exist_ok=True)
  for idx in range(num_chunks): ...
  print("All chunks finished!")
  print("Now run `python merge_outputs.py ...`")
  \<close>
  The generator \<open>chunkify\<close> runs its first statement, the division, when the first loop asks
  for its first element: after the work directory has been created.
\<close>

definition batch_clamp3_main :: "args \<Rightarrow> worker \<Rightarrow> world \<Rightarrow> world \<times> exit" where
  "batch_clamp3_main a w s =
     (let mp3s = discover (source s)
      in if mp3s = [] then (s\<lparr>log := log s @ [Print No_mp3_found]\<rparr>, Sys_exit_no_input)
         else
           (let s1 = s\<lparr>work_exists := True\<rparr>
            in case chunkify mp3s (chunks a) of
                 Inl e \<Rightarrow> (s1, Uncaught e)
               | Inr groups \<Rightarrow>
                   (case materialize_all (move a) (enumerate 0 groups) s1 of
                      (s2, Some e) \<Rightarrow> (s2, Uncaught e)
                    | (s2, None) \<Rightarrow>
                        (case process w [0..<nat (chunks a)] (s2\<lparr>out_exists := True\<rparr>) of
                           (s3, Some (idx, code)) \<Rightarrow> (s3, Sys_exit_failed idx code)
                         | (s3, None) \<Rightarrow>
                             (s3\<lparr>log := log s3 @ [Print All_finished, Print (Merge_hint (chunks a))]\<rparr>,
                              Exit0)))))"




text \<open>
  For the examples: the file system before a first run, in which neither the work directory
  nor the output root exists; a worker that always succeeds and leaves an empty output
  directory; and a worker that fails with status 1 on the chunk directory \<open>chunk_01\<close>, after
  creating its output directory, and succeeds like the first everywhere else.
\<close>

definition fresh_world :: "(path \<times> content) list \<Rightarrow> world" where
  "fresh_world tree =
     \<lparr>source = tree, work_exists = False, work = Map.empty,
      out_exists = False, out = Map.empty, log = []\<rparr>"

definition succeeding_worker :: worker where
  "succeeding_worker chunk_in chunk_out d = (0, Some [])"


section \<open>The merger: \<open>main\<close> of \<open>merge_outputs.py\<close>\<close>

record merge_args =
  m_chunks :: int
  overwrite :: bool

datatype merge_event =
    Warning_missing string
  | Collision string
  | Copy_to_dest string string
  | Merge_complete

record merge_world =
  in_root :: "string \<rightharpoonup> dir"
  dest_exists :: bool
  dest :: dir
  mlog :: "merge_event list"

text \<open>
  \<^verbatim>\<open>
  target = dest / f.name
  if target.exists() and not a.overwrite:
      print(f"Collision: ..."); continue
  shutil.copy2(f, target)
  \<close>
\<close>

definition merge_file :: "bool \<Rightarrow> string \<Rightarrow> string \<times> content \<Rightarrow> merge_world \<Rightarrow> merge_world" where
  "merge_file ow chunk_dir f s =
     (let target = fst f
      in if map_of (dest s) target \<noteq> None \<and> \<not> ow
         then s\<lparr>mlog := mlog s @ [Collision target]\<rparr>
         else s\<lparr>dest := AList.update target (snd f) (dest s),
                mlog := mlog s @ [Copy_to_dest chunk_dir target]\<rparr>)"

text \<open>
  \<^verbatim>\<open>
  chunk_dir = in_root / f"chunk_{idx:02d}"
  if not chunk_dir.exists():
      print(f"Warning: {chunk_dir} missing, skipping"); continue
  for f in chunk_dir.iterdir(): ...
  \<close>
\<close>

definition merge_chunk :: "bool \<Rightarrow> nat \<Rightarrow> merge_world \<Rightarrow> merge_world" where
  "merge_chunk ow idx s =
     (let chunk_dir = chunk_name idx
      in case in_root s chunk_dir of
           None \<Rightarrow> s\<lparr>mlog := mlog s @ [Warning_missing chunk_dir]\<rparr>
         | Some entries \<Rightarrow> fold (merge_file ow chunk_dir) entries s)"

text \<open>
  \<open>main\<close> of \<^verbatim>\<open>merge_outputs.py\<close>:
  \<^verbatim>\<open>
  dest.mkdir(parents=True, exist_ok=True)
  for idx in range(a.chunks): ...
  print("Merge complete!")
  \<close>
\<close>

definition merge_outputs_main :: "merge_args \<Rightarrow> merge_world \<Rightarrow> merge_world \<times> exit" where
  "merge_outputs_main a s =
     (let s1 = fold (merge_chunk (overwrite a)) [0..<nat (m_chunks a)] (s\<lparr>dest_exists := True\<rparr>)
      in (s1\<lparr>mlog := mlog s1 @ [Merge_complete]\<rparr>, Exit0))"

text \<open>
  For stating what a merge does: the entries of those chunk directories \<open>0, \<dots>, n - 1\<close> that
  exist, in the order in which the merge visits them, and the directories that a log warns
  about.
\<close>

definition chunk_entries :: "(string \<rightharpoonup> dir) \<Rightarrow> int \<Rightarrow> dir" where
  "chunk_entries area n =
     concat (map (\<lambda>idx. case area (chunk_name idx) of None \<Rightarrow> [] | Some es \<Rightarrow> es) [0..<nat n])"

fun warnings :: "merge_event list \<Rightarrow> string list" where
  "warnings [] = []"
| "warnings (Warning_missing d # es) = d # warnings es"
| "warnings (e # es) = warnings es"

section \<open>Properties of the partitioner\<close>

lemma ceil_div_int: "ceil_div a b = (if b = 0 then Inl ZeroDivisionError else Inr (- ((- a) div b)))"
proof -
  have "\<lceil>(of_int a :: real) / of_int b\<rceil> = - \<lfloor>(of_int (- a) :: real) / of_int b\<rfloor>"
    by (simp add: ceiling_def)
  also have "\<dots> = - ((- a) div b)"
    by (simp only: floor_divide_of_int_eq)
  finally show ?thesis
    by (simp add: ceil_div_def)
qed

lemma ceil_div_pos: "1 \<le> n \<Longrightarrow> ceil_div (int len) n = Inr (int (chunk_len len n))"
proof -
  assume n: "1 \<le> n"
  then have "0 \<le> real len / of_int n" by simp
  then have "0 \<le> \<lceil>real len / of_int n\<rceil>" by linarith
  with n show ?thesis by (simp add: ceil_div_def chunk_len_def)
qed

lemma chunk_len_covers: "1 \<le> n \<Longrightarrow> len \<le> nat n * chunk_len len n"
proof -
  assume n: "1 \<le> n"
  then have q: "0 < (of_int n :: real)" by simp
  have "0 \<le> real len / of_int n" using n by simp
  then have nn: "0 \<le> \<lceil>real len / of_int n\<rceil>" by linarith
  have "real len \<le> of_int \<lceil>real len / of_int n\<rceil> * of_int n"
    using ceiling_divide_upper [OF q] .
  then have "int len \<le> \<lceil>real len / of_int n\<rceil> * n"
    by (metis of_int_le_iff of_int_mult of_int_of_nat_eq)
  then have "int len \<le> int (chunk_len len n) * int (nat n)"
    using n nn by (simp add: chunk_len_def)
  then show ?thesis
    by (metis mult.commute of_nat_le_iff of_nat_mult)
qed

lemma upto_map_int: "[0..int m - 1] = map int [0..<m]"
proof (induction m)
  case 0
  then show ?case by simp
next
  case (Suc m)
  have "[0..int (Suc m) - 1] = [0..(int m - 1) + 1]" by simp
  also have "\<dots> = [0..int m - 1] @ [int m]"
    by (subst upto_rec2) simp_all
  finally show ?case using Suc by simp
qed

lemma slice_bound_nat: "slice_bound len (int a) = min a len"
  by (simp add: slice_bound_def)

lemma py_slice_nat: "py_slice xs (int i * int k) ((int i + 1) * int k) = take k (drop (i * k) xs)"
proof -
  have a: "int i * int k = int (i * k)" by simp
  have b: "(int i + 1) * int k = int (i * k + k)" by (simp add: algebra_simps)
  have "take (min (i * k + k) (length xs) - min (i * k) (length xs)) (drop (min (i * k) (length xs)) xs)
        = take k (drop (i * k) xs)"
  proof (cases "length xs \<le> i * k")
    case True
    then show ?thesis by simp
  next
    case False
    then have m: "min (i * k) (length xs) = i * k" by simp
    show ?thesis
    proof (cases "i * k + k \<le> length xs")
      case True
      then show ?thesis by (simp add: m)
    next
      case False
      then have "min (i * k + k) (length xs) = length xs" by simp
      then show ?thesis using False by (simp add: m)
    qed
  qed
  then show ?thesis
    unfolding py_slice_def a b slice_bound_nat by (simp add: Let_def)
qed

lemma chunkify_pos:
  assumes "1 \<le> n"
  shows "chunkify files n =
         Inr (map (\<lambda>i. take (chunk_len (length files) n) (drop (i * chunk_len (length files) n) files))
                [0..<nat n])"
proof -
  have "[0..n - 1] = map int [0..<nat n]"
    using assms upto_map_int [of "nat n"] by simp
  then show ?thesis
    using assms by (simp add: chunkify_def ceil_div_pos py_slice_nat comp_def)
qed

lemma concat_slices: "concat (map (\<lambda>i. take k (drop (i * k) xs)) [0..<m]) = take (m * k) xs"
proof (induction m)
  case 0
  then show ?case by simp
next
  case (Suc m)
  have "take (Suc m * k) xs = take (m * k + k) xs"
    by (simp add: add.commute)
  also have "\<dots> = take (m * k) xs @ take k (drop (m * k) xs)"
    by (rule take_add)
  finally show ?case using Suc by simp
qed

lemma slices_disjoint:
  assumes "distinct xs" "i < j"
  shows "set (take k (drop (i * k) xs)) \<inter> set (take k (drop (j * k) xs)) = {}"
proof -
  have le: "i * k + k \<le> j * k"
  proof -
    from assms(2) have "Suc i \<le> j" by simp
    then have "Suc i * k \<le> j * k" by (rule mult_le_mono1)
    then show ?thesis by (simp add: add.commute)
  qed
  have "take k (drop (i * k) xs) = drop (i * k) (take (i * k + k) xs)"
    by (simp add: drop_take add.commute)
  then have "set (take k (drop (i * k) xs)) \<subseteq> set (take (i * k + k) xs)"
    by (simp add: set_drop_subset)
  also have "\<dots> \<subseteq> set (take (j * k) xs)"
    using le by (rule set_take_subset_set_take)
  finally have a: "set (take k (drop (i * k) xs)) \<subseteq> set (take (j * k) xs)" .
  have b: "set (take k (drop (j * k) xs)) \<subseteq> set (drop (j * k) xs)"
    by (rule set_take_subset)
  have "distinct (take (j * k) xs @ drop (j * k) xs)"
    using assms(1) by simp
  then have "set (take (j * k) xs) \<inter> set (drop (j * k) xs) = {}"
    by (simp only: distinct_append)
  with a b show ?thesis by blast
qed

text \<open>
  Claim C2. For every corpus and every chunk count \<open>n \<ge> 1\<close>, \<open>chunkify\<close> yields exactly \<open>n\<close>
  groups, their concatenation in index order is the corpus, group \<open>i\<close> is the contiguous
  slice of at most \<open>k\<close> files that starts at position \<open>i * k\<close> (with \<open>k\<close> the slice length),
  the slice of a lower index ends before the slice of a higher index starts, and in a corpus
  without repeated paths no two groups share a file.
\<close>

theorem chunkify_partition:
  assumes "1 \<le> n"
  shows "\<exists>groups. chunkify files n = Inr groups
           \<and> length groups = nat n
           \<and> concat groups = files
           \<and> (\<forall>i<nat n. groups ! i =
                  take (chunk_len (length files) n) (drop (i * chunk_len (length files) n) files))
           \<and> (\<forall>i j. i < j \<and> j < nat n \<longrightarrow>
                  i * chunk_len (length files) n + length (groups ! i) \<le> j * chunk_len (length files) n)
           \<and> (distinct files \<longrightarrow>
                  (\<forall>i j. i < j \<and> j < nat n \<longrightarrow> set (groups ! i) \<inter> set (groups ! j) = {}))"
proof -
  define k where "k = chunk_len (length files) n"
  define groups where "groups = map (\<lambda>i. take k (drop (i * k) files)) [0..<nat n]"
  have eq: "chunkify files n = Inr groups"
    unfolding groups_def k_def using assms by (rule chunkify_pos)
  have len: "length groups = nat n"
    by (simp add: groups_def)
  have nth: "groups ! i = take k (drop (i * k) files)" if "i < nat n" for i
    using that by (simp add: groups_def)
  have "length files \<le> nat n * k"
    unfolding k_def using assms by (rule chunk_len_covers)
  then have cat: "concat groups = files"
    by (simp add: groups_def concat_slices)
  have pos: "i * k + length (groups ! i) \<le> j * k" if "i < j" "j < nat n" for i j
  proof -
    from that have "Suc i \<le> j" by simp
    then have "Suc i * k \<le> j * k" by (rule mult_le_mono1)
    moreover have "length (groups ! i) \<le> k"
      using that by (simp add: nth)
    ultimately show ?thesis by simp
  qed
  have dis: "set (groups ! i) \<inter> set (groups ! j) = {}"
    if "distinct files" "i < j" "j < nat n" for i j
    using that by (simp add: nth slices_disjoint)
  show ?thesis
    using eq len cat nth pos dis unfolding k_def by blast
qed

text \<open>C2 at five files in two chunks.\<close>

theorem chunkify_partition_witness:
  "(1::int) \<le> 2 \<and> chunkify ''abcde'' 2 = Inr [''abc'', ''de''] \<and> chunk_len (length ''abcde'') 2 = 3"
proof -
  have k: "chunk_len (length ''abcde'') 2 = 3"
    by (simp add: chunk_len_def ceiling_divide_eq_div_numeral)
  from chunkify_partition [of 2 "''abcde''"]
  obtain groups where g: "chunkify ''abcde'' 2 = Inr groups" "length groups = nat 2"
    "\<forall>i<nat 2. groups ! i = take (chunk_len (length ''abcde'') 2) (drop (i * chunk_len (length ''abcde'') 2) ''abcde'')"
    by auto
  from g(3) have "groups ! 0 = ''abc''" "groups ! 1 = ''de''"
    unfolding k by simp_all
  with g(2) have "groups = [''abc'', ''de'']"
    by (cases groups; cases "tl groups"; cases "tl (tl groups)") auto
  with g(1) k show ?thesis by simp
qed

text \<open>
  Claim C3, as amended. For \<open>n \<ge> 1\<close>, group \<open>i\<close> has \<open>min k (L - i * k)\<close> files, where \<open>k\<close> is
  the ceiling of \<open>L / n\<close> and the difference stops at zero: the groups are full up to the
  first one that is not, and every group after a group that is not full is empty. The groups
  that differ from \<open>k\<close> are a trailing run, not the final group alone.
\<close>

theorem chunkify_sizes:
  assumes "1 \<le> n" and "chunkify files n = Inr groups"
  shows "(\<forall>i<length groups. length (groups ! i) =
             min (chunk_len (length files) n) (length files - i * chunk_len (length files) n))
       \<and> (\<forall>i j. i < j \<and> j < length groups \<and> length (groups ! i) \<noteq> chunk_len (length files) n
             \<longrightarrow> groups ! j = [])"
proof -
  define k where "k = chunk_len (length files) n"
  have g: "groups = map (\<lambda>i. take k (drop (i * k) files)) [0..<nat n]"
    using assms chunkify_pos [of n files] by (simp add: k_def)
  have sz: "length (groups ! i) = min k (length files - i * k)" if "i < length groups" for i
    using that by (simp add: g)
  have "groups ! j = []" if "i < j" "j < length groups" "length (groups ! i) \<noteq> k" for i j
  proof -
    from that have "length files - i * k < k"
      using sz [of i] by simp
    then have "length files < i * k + k" by simp
    moreover from that(1) have "Suc i * k \<le> j * k"
      by (intro mult_le_mono1) simp
    ultimately have "length files \<le> j * k" by simp
    then have "length (groups ! j) = 0"
      using that(2) sz [of j] by simp
    then show ?thesis by simp
  qed
  with sz show ?thesis unfolding k_def by blast
qed

text \<open>
  Claim C3 as stated fails: with seven files in five chunks the slice length is 2, and the
  group of index 3, which is not the final group, has one file.
\<close>

theorem chunkify_7_5_counterexample:
  "chunkify ''abcdefg'' 5 = Inr [''ab'', ''cd'', ''ef'', ''g'', '''']
   \<and> ceil_div (int (length ''abcdefg'')) 5 = Inr 2"
  by code_simp

text \<open>
  Claim C4 as stated fails: 25 files in 10 chunks do not give the sizes
  \<open>[3,3,3,3,3,3,3,1,1,1]\<close> (which add up to 24).
\<close>

theorem chunkify_25_10_counterexample:
  "map_sum id (map length) (chunkify [1 ..< 26 :: nat] 10) \<noteq> Inr [3, 3, 3, 3, 3, 3, 3, 1, 1, 1]"
  by code_simp

text \<open>
  Claim C4, as amended. A corpus of exactly 25 files in 10 chunks gives groups of sizes
  \<open>[3,3,3,3,3,3,3,3,1,0]\<close>, in index order.
\<close>

theorem chunkify_25_10:
  assumes "length files = 25"
  shows "\<exists>groups. chunkify files 10 = Inr groups \<and> map length groups = [3, 3, 3, 3, 3, 3, 3, 3, 1, 0]"
proof -
  have k: "chunk_len 25 10 = 3"
    by (simp add: chunk_len_def ceiling_divide_eq_div_numeral)
  have u: "[0..<10] = [0, 1, 2, 3, 4, 5, 6, 7, 8, 9 :: nat]"
    by (simp add: upt_rec)
  have a: "chunkify files 10 = Inr (map (\<lambda>i. take 3 (drop (i * 3) files)) [0..<10])"
    using chunkify_pos [of 10 files] assms by (simp add: k)
  have b: "map length (map (\<lambda>i. take 3 (drop (i * 3) files)) [0..<10]) = [3, 3, 3, 3, 3, 3, 3, 3, 1, 0]"
    unfolding u using assms by simp
  show ?thesis
    by (rule exI [where x = "map (\<lambda>i. take 3 (drop (i * 3) files)) [0..<10]"]) (rule conjI [OF a b])
qed

text \<open>The amended C4 at the corpus \<open>1, \<dots>, 25\<close>.\<close>

theorem chunkify_25_10_witness:
  "length [1 ..< 26 :: nat] = 25
   \<and> (\<exists>groups. chunkify [1 ..< 26 :: nat] 10 = Inr groups \<and> map length groups = [3, 3, 3, 3, 3, 3, 3, 3, 1, 0])"
proof -
  have h: "length [1 ..< 26 :: nat] = 25" by simp
  from chunkify_25_10 [OF h] h show ?thesis by (rule_tac conjI)
qed

text \<open>The amended C3 at seven files in five chunks.\<close>

theorem chunkify_sizes_witness:
  "(1::int) \<le> 5 \<and> chunkify ''abcdefg'' 5 = Inr [''ab'', ''cd'', ''ef'', ''g'', []]
   \<and> length ([''ab'', ''cd'', ''ef'', ''g'', []] ! 3) = 1
   \<and> [''ab'', ''cd'', ''ef'', ''g'', []] ! 4 = []"
proof -
  have n: "(1::int) \<le> 5" by simp
  have c: "chunkify ''abcdefg'' 5 = Inr [''ab'', ''cd'', ''ef'', ''g'', []]" by code_simp
  from chunkify_sizes [OF n c] n c show ?thesis by simp
qed

section \<open>Chunk directory names\<close>

lemma digit_char_inj: "a < 10 \<Longrightarrow> b < 10 \<Longrightarrow> digit_char a = digit_char b \<longleftrightarrow> a = b"
  by (simp add: digit_char_def)

lemma digit_char_zero: "digit_char 0 = CHR ''0''"
  by code_simp

lemma digit_char_nonzero: "0 < d \<Longrightarrow> d < 10 \<Longrightarrow> digit_char d \<noteq> CHR ''0''"
  using digit_char_inj [of d 0] by (simp add: digit_char_zero)

lemma decimal_small: "n < 10 \<Longrightarrow> decimal n = [digit_char n]"
  by (simp add: decimal.simps [of n])

lemma decimal_large: "10 \<le> n \<Longrightarrow> decimal n = decimal (n div 10) @ [digit_char (n mod 10)]"
  by (simp add: decimal.simps [of n])

lemma decimal_nonempty: "decimal n \<noteq> []"
proof (cases "n < 10")
  case True
  then show ?thesis by (simp only: decimal_small) simp
next
  case False
  then have "10 \<le> n" by simp
  then show ?thesis by (simp only: decimal_large) simp
qed

lemma length_decimal_large: "10 \<le> n \<Longrightarrow> 2 \<le> length (decimal n)"
proof -
  assume n: "10 \<le> n"
  have "length (decimal (n div 10)) \<noteq> 0"
    using decimal_nonempty [of "n div 10"] by (simp only: length_0_conv not_False_eq_True)
  then have "1 \<le> length (decimal (n div 10))" by (simp add: Suc_le_eq)
  moreover have "length (decimal n) = length (decimal (n div 10)) + 1"
    by (simp only: decimal_large [OF n]) simp
  ultimately show ?thesis by simp
qed

lemma decimal_inj: "decimal n = decimal m \<Longrightarrow> n = m"
proof (induction n arbitrary: m rule: decimal.induct)
  case (1 n)
  note eq = "1.prems"
  show ?case
  proof (cases "n < 10")
    case n: True
    have ln: "length (decimal n) = 1"
      by (simp only: decimal_small [OF n]) simp
    show ?thesis
    proof (cases "m < 10")
      case m: True
      from eq have "[digit_char n] = [digit_char m]"
        by (simp only: decimal_small [OF n] decimal_small [OF m])
      then have "digit_char n = digit_char m" by simp
      then show ?thesis
        by (simp only: digit_char_inj [OF n m])
    next
      case False
      then have "2 \<le> length (decimal m)" by (simp add: length_decimal_large)
      with ln eq show ?thesis by simp
    qed
  next
    case n: False
    then have n10: "10 \<le> n" by simp
    show ?thesis
    proof (cases "m < 10")
      case m: True
      have "length (decimal m) = 1"
        by (simp only: decimal_small [OF m]) simp
      moreover have "2 \<le> length (decimal n)"
        using n10 by (rule length_decimal_large)
      ultimately show ?thesis using eq by simp
    next
      case False
      then have m10: "10 \<le> m" by simp
      from eq have "decimal (n div 10) @ [digit_char (n mod 10)]
                    = decimal (m div 10) @ [digit_char (m mod 10)]"
        by (simp only: decimal_large [OF n10] decimal_large [OF m10])
      then have d: "decimal (n div 10) = decimal (m div 10)"
        and c: "digit_char (n mod 10) = digit_char (m mod 10)"
        by simp_all
      from d have q: "n div 10 = m div 10"
        by (rule "1.IH" [OF n])
      have "n mod 10 < 10" "m mod 10 < 10" by simp_all
      from c have r: "n mod 10 = m mod 10"
        by (simp only: digit_char_inj [OF \<open>n mod 10 < 10\<close> \<open>m mod 10 < 10\<close>])
      have "n = n div 10 * 10 + n mod 10" by (simp only: div_mult_mod_eq)
      also have "\<dots> = m div 10 * 10 + m mod 10" by (simp only: q r)
      also have "\<dots> = m" by (simp only: div_mult_mod_eq)
      finally show ?thesis .
    qed
  qed
qed

lemma hd_decimal: "0 < n \<Longrightarrow> hd (decimal n) \<noteq> CHR ''0''"
proof (induction n rule: decimal.induct)
  case (1 n)
  show ?case
  proof (cases "n < 10")
    case True
    have "hd (decimal n) = digit_char n"
      by (simp only: decimal_small [OF True]) simp
    with True "1.prems" show ?thesis by (simp add: digit_char_nonzero)
  next
    case False
    then have n10: "10 \<le> n" by simp
    then have "0 < n div 10" by simp
    then have "hd (decimal (n div 10)) \<noteq> CHR ''0''"
      by (rule "1.IH" [OF False])
    moreover have "hd (decimal n) = hd (decimal (n div 10))"
      by (simp only: decimal_large [OF n10]) (simp add: decimal_nonempty)
    ultimately show ?thesis by simp
  qed
qed

lemma fmt_02d_small: "n < 10 \<Longrightarrow> fmt_02d n = [CHR ''0'', digit_char n]"
proof -
  assume n: "n < 10"
  have "fmt_02d n = replicate (2 - length [digit_char n]) CHR ''0'' @ [digit_char n]"
    by (simp only: fmt_02d_def Let_def decimal_small [OF n])
  then show ?thesis by (simp add: numeral_2_eq_2)
qed

lemma fmt_02d_large: "10 \<le> n \<Longrightarrow> fmt_02d n = decimal n"
  using length_decimal_large [of n] by (simp add: fmt_02d_def Let_def)

lemma fmt_02d_inj: "fmt_02d n = fmt_02d m \<Longrightarrow> n = m"
proof -
  have mixed: False if "a < 10" "10 \<le> b" "fmt_02d a = fmt_02d b" for a b
  proof -
    from that have "decimal b = [CHR ''0'', digit_char a]"
      by (simp add: fmt_02d_small fmt_02d_large)
    then have "hd (decimal b) = CHR ''0''" by simp
    moreover from that have "0 < b" by simp
    ultimately show False using hd_decimal by blast
  qed
  assume eq: "fmt_02d n = fmt_02d m"
  consider "n < 10" "m < 10" | "n < 10" "10 \<le> m" | "10 \<le> n" "m < 10" | "10 \<le> n" "10 \<le> m"
    by linarith
  then show ?thesis
  proof cases
    case 1
    with eq show ?thesis by (simp add: fmt_02d_small digit_char_inj)
  next
    case 2
    from mixed [OF 2 eq] show ?thesis ..
  next
    case 3
    from mixed [OF 3(2) 3(1) eq [symmetric]] show ?thesis ..
  next
    case 4
    with eq have "decimal n = decimal m" by (simp add: fmt_02d_large)
    then show ?thesis by (rule decimal_inj)
  qed
qed

lemma chunk_name_inj [simp]: "chunk_name i = chunk_name j \<longleftrightarrow> i = j"
proof
  assume "chunk_name i = chunk_name j"
  then have "fmt_02d i = fmt_02d j" by (simp add: chunk_name_def)
  then show "i = j" by (rule fmt_02d_inj)
qed simp

section \<open>Properties of the merger\<close>

lemma warnings_append: "warnings (xs @ ys) = warnings xs @ warnings ys"
  by (induction xs rule: warnings.induct) simp_all

lemma map_add_upd_left: "m(k \<mapsto> v) ++ n = m ++ ([k \<mapsto> v] ++ n)"
  by (rule ext) (simp add: map_add_def split: option.split)

lemma map_add_upd_absent: "m k = None \<Longrightarrow> m(k \<mapsto> v) = [k \<mapsto> v] ++ m"
  by (rule ext) (simp add: map_add_def split: option.split)

lemma map_add_single_present: "m k \<noteq> None \<Longrightarrow> [k \<mapsto> v] ++ m = m"
  by (rule ext) (auto simp add: map_add_def split: option.split)

lemma merge_file_in_root [simp]: "in_root (merge_file ow cd f s) = in_root s"
  by (simp add: merge_file_def Let_def)

lemma merge_file_dest_exists [simp]: "dest_exists (merge_file ow cd f s) = dest_exists s"
  by (simp add: merge_file_def Let_def)

lemma merge_file_overwrite:
  "map_of (dest (merge_file True cd f s)) = (map_of (dest s))(fst f \<mapsto> snd f)"
  by (simp add: merge_file_def Let_def update_conv')

lemma merge_file_default:
  "map_of (dest (merge_file False cd f s)) = [fst f \<mapsto> snd f] ++ map_of (dest s)"
proof (cases "map_of (dest s) (fst f)")
  case None
  then have "map_of (dest (merge_file False cd f s)) = (map_of (dest s))(fst f \<mapsto> snd f)"
    by (simp add: merge_file_def Let_def update_conv')
  also have "\<dots> = [fst f \<mapsto> snd f] ++ map_of (dest s)"
    using None by (rule map_add_upd_absent)
  finally show ?thesis .
next
  case (Some c)
  then have "[fst f \<mapsto> snd f] ++ map_of (dest s) = map_of (dest s)"
    by (intro map_add_single_present) simp
  with Some show ?thesis
    by (simp add: merge_file_def Let_def)
qed

lemma fold_merge_file_in_root [simp]: "in_root (fold (merge_file ow cd) es s) = in_root s"
  by (induction es arbitrary: s) simp_all

lemma fold_merge_file_dest_exists [simp]:
  "dest_exists (fold (merge_file ow cd) es s) = dest_exists s"
  by (induction es arbitrary: s) simp_all

lemma fold_merge_file_overwrite:
  "map_of (dest (fold (merge_file True cd) es s)) = map_of (dest s) ++ map_of (rev es)"
proof (induction es arbitrary: s)
  case Nil
  then show ?case by simp
next
  case (Cons e es)
  have "map_of (dest (fold (merge_file True cd) (e # es) s))
        = (map_of (dest s))(fst e \<mapsto> snd e) ++ map_of (rev es)"
    by (simp only: fold_Cons comp_apply Cons.IH merge_file_overwrite)
  also have "\<dots> = map_of (dest s) ++ ([fst e \<mapsto> snd e] ++ map_of (rev es))"
    by (rule map_add_upd_left)
  also have "[fst e \<mapsto> snd e] ++ map_of (rev es) = map_of (rev (e # es))"
    by (cases e) (simp add: map_of_append)
  finally show ?case .
qed

lemma fold_merge_file_default:
  "map_of (dest (fold (merge_file False cd) es s)) = map_of es ++ map_of (dest s)"
proof (induction es arbitrary: s)
  case Nil
  then show ?case by simp
next
  case (Cons e es)
  have "map_of (dest (fold (merge_file False cd) (e # es) s))
        = map_of es ++ ([fst e \<mapsto> snd e] ++ map_of (dest s))"
    by (simp only: fold_Cons comp_apply Cons.IH merge_file_default)
  also have "\<dots> = (map_of es ++ [fst e \<mapsto> snd e]) ++ map_of (dest s)"
    by (simp only: map_add_assoc)
  also have "map_of es ++ [fst e \<mapsto> snd e] = map_of (e # es)"
    by (cases e) simp
  finally show ?case .
qed

lemma merge_file_warnings [simp]: "warnings (mlog (merge_file ow cd f s)) = warnings (mlog s)"
  by (simp add: merge_file_def Let_def warnings_append)

lemma fold_merge_file_warnings [simp]:
  "warnings (mlog (fold (merge_file ow cd) es s)) = warnings (mlog s)"
  by (induction es arbitrary: s) simp_all

lemma merge_file_log: "\<exists>evs. mlog (merge_file ow cd f s) = mlog s @ evs"
  by (simp add: merge_file_def Let_def)

lemma fold_merge_file_log: "\<exists>evs. mlog (fold (merge_file ow cd) es s) = mlog s @ evs"
proof (induction es arbitrary: s)
  case Nil
  then show ?case by simp
next
  case (Cons e es)
  obtain evs1 where 1: "mlog (merge_file ow cd e s) = mlog s @ evs1"
    using merge_file_log by blast
  obtain evs2 where 2: "mlog (fold (merge_file ow cd) es (merge_file ow cd e s))
                        = mlog (merge_file ow cd e s) @ evs2"
    using Cons.IH by blast
  have "mlog (fold (merge_file ow cd) (e # es) s) = mlog s @ (evs1 @ evs2)"
    by (simp add: 1 2)
  then show ?case by blast
qed




lemma merge_chunk_in_root [simp]: "in_root (merge_chunk ow idx s) = in_root s"
  by (simp add: merge_chunk_def Let_def split: option.split)

lemma merge_chunk_dest_exists [simp]: "dest_exists (merge_chunk ow idx s) = dest_exists s"
  by (simp add: merge_chunk_def Let_def split: option.split)

lemma fold_merge_chunk_in_root [simp]: "in_root (fold (merge_chunk ow) idxs s) = in_root s"
  by (induction idxs arbitrary: s) simp_all

lemma fold_merge_chunk_dest_exists [simp]:
  "dest_exists (fold (merge_chunk ow) idxs s) = dest_exists s"
  by (induction idxs arbitrary: s) simp_all

lemma merge_chunk_overwrite:
  "map_of (dest (merge_chunk True idx s))
   = map_of (dest s) ++ map_of (rev (case in_root s (chunk_name idx) of None \<Rightarrow> [] | Some es \<Rightarrow> es))"
  by (simp add: merge_chunk_def Let_def fold_merge_file_overwrite split: option.split)

lemma merge_chunk_default:
  "map_of (dest (merge_chunk False idx s))
   = map_of (case in_root s (chunk_name idx) of None \<Rightarrow> [] | Some es \<Rightarrow> es) ++ map_of (dest s)"
  by (simp add: merge_chunk_def Let_def fold_merge_file_default split: option.split)

lemma fold_merge_chunk_overwrite:
  "map_of (dest (fold (merge_chunk True) idxs s))
   = map_of (dest s)
     ++ map_of (rev (concat (map (\<lambda>idx. case in_root s (chunk_name idx) of None \<Rightarrow> [] | Some es \<Rightarrow> es) idxs)))"
proof (induction idxs arbitrary: s)
  case Nil
  then show ?case by simp
next
  case (Cons i idxs)
  let ?ents = "\<lambda>idx. case in_root s (chunk_name idx) of None \<Rightarrow> [] | Some es \<Rightarrow> es"
  have "map_of (dest (fold (merge_chunk True) (i # idxs) s))
        = (map_of (dest s) ++ map_of (rev (?ents i))) ++ map_of (rev (concat (map ?ents idxs)))"
    by (simp add: Cons.IH merge_chunk_overwrite)
  also have "\<dots> = map_of (dest s) ++ (map_of (rev (?ents i)) ++ map_of (rev (concat (map ?ents idxs))))"
    by (simp only: map_add_assoc)
  also have "map_of (rev (?ents i)) ++ map_of (rev (concat (map ?ents idxs)))
             = map_of (rev (concat (map ?ents (i # idxs))))"
    by (simp add: map_of_append)
  finally show ?case .
qed

lemma fold_merge_chunk_default:
  "map_of (dest (fold (merge_chunk False) idxs s))
   = map_of (concat (map (\<lambda>idx. case in_root s (chunk_name idx) of None \<Rightarrow> [] | Some es \<Rightarrow> es) idxs))
     ++ map_of (dest s)"
proof (induction idxs arbitrary: s)
  case Nil
  then show ?case by simp
next
  case (Cons i idxs)
  let ?ents = "\<lambda>idx. case in_root s (chunk_name idx) of None \<Rightarrow> [] | Some es \<Rightarrow> es"
  have "map_of (dest (fold (merge_chunk False) (i # idxs) s))
        = map_of (concat (map ?ents idxs)) ++ (map_of (?ents i) ++ map_of (dest s))"
    by (simp add: Cons.IH merge_chunk_default)
  also have "\<dots> = (map_of (concat (map ?ents idxs)) ++ map_of (?ents i)) ++ map_of (dest s)"
    by (simp only: map_add_assoc)
  also have "map_of (concat (map ?ents idxs)) ++ map_of (?ents i)
             = map_of (concat (map ?ents (i # idxs)))"
    by (simp add: map_of_append)
  finally show ?case .
qed

lemma merge_chunk_warnings:
  "warnings (mlog (merge_chunk ow idx s))
   = warnings (mlog s) @ (if in_root s (chunk_name idx) = None then [chunk_name idx] else [])"
  by (simp add: merge_chunk_def Let_def warnings_append split: option.split)

lemma fold_merge_chunk_warnings:
  "warnings (mlog (fold (merge_chunk ow) idxs s))
   = warnings (mlog s) @ map chunk_name (filter (\<lambda>idx. in_root s (chunk_name idx) = None) idxs)"
  by (induction idxs arbitrary: s) (simp_all add: merge_chunk_warnings)

lemma merge_chunk_log: "\<exists>evs. mlog (merge_chunk ow idx s) = mlog s @ evs"
  by (simp add: merge_chunk_def Let_def fold_merge_file_log split: option.split)

lemma fold_merge_chunk_log: "\<exists>evs. mlog (fold (merge_chunk ow) idxs s) = mlog s @ evs"
proof (induction idxs arbitrary: s)
  case Nil
  then show ?case by simp
next
  case (Cons i idxs)
  obtain evs1 where 1: "mlog (merge_chunk ow i s) = mlog s @ evs1"
    using merge_chunk_log by blast
  obtain evs2 where 2: "mlog (fold (merge_chunk ow) idxs (merge_chunk ow i s))
                        = mlog (merge_chunk ow i s) @ evs2"
    using Cons.IH by blast
  have "mlog (fold (merge_chunk ow) (i # idxs) s) = mlog s @ (evs1 @ evs2)"
    by (simp add: 1 2)
  then show ?case by blast
qed







lemma chunk_name_1: "chunk_name 1 = ''chunk_01''"
  by code_simp

lemma merge_outputs_main_fst:
  "fst (merge_outputs_main a s)
   = (fold (merge_chunk (overwrite a)) [0..<nat (m_chunks a)] (s\<lparr>dest_exists := True\<rparr>))
       \<lparr>mlog := mlog (fold (merge_chunk (overwrite a)) [0..<nat (m_chunks a)] (s\<lparr>dest_exists := True\<rparr>))
                 @ [Merge_complete]\<rparr>"
  by (simp add: merge_outputs_main_def Let_def)

lemma merge_outputs_main_dest:
  "map_of (dest (fst (merge_outputs_main a s)))
   = (if overwrite a
      then map_of (dest s) ++ map_of (rev (chunk_entries (in_root s) (m_chunks a)))
      else map_of (chunk_entries (in_root s) (m_chunks a)) ++ map_of (dest s))"
  by (cases "overwrite a")
     (simp_all add: merge_outputs_main_fst fold_merge_chunk_overwrite fold_merge_chunk_default
        chunk_entries_def)

text \<open>
  Claim C8. For every chunk count and every set of chunk directories that exist, the merge
  ends with exit status 0 after printing its closing line; it warns exactly about the missing
  directories among \<open>chunk_00, \<dots>, chunk_(N-1)\<close>, in index order, and goes on after each; and
  the destination afterwards holds its former entries and every entry of the chunk directories
  that exist: without the overwrite flag a name keeps the destination's former content, or else
  the content of its first copy, and with the flag it has the content of its last copy.
\<close>

theorem merge_outputs_main_tolerant:
  "snd (merge_outputs_main a s) = Exit0
   \<and> exit_status (snd (merge_outputs_main a s)) = 0
   \<and> dest_exists (fst (merge_outputs_main a s))
   \<and> in_root (fst (merge_outputs_main a s)) = in_root s
   \<and> map_of (dest (fst (merge_outputs_main a s)))
       = (if overwrite a
          then map_of (dest s) ++ map_of (rev (chunk_entries (in_root s) (m_chunks a)))
          else map_of (chunk_entries (in_root s) (m_chunks a)) ++ map_of (dest s))
   \<and> fst ` set (dest (fst (merge_outputs_main a s)))
       = fst ` set (dest s) \<union> fst ` set (chunk_entries (in_root s) (m_chunks a))
   \<and> warnings (mlog (fst (merge_outputs_main a s)))
       = warnings (mlog s)
         @ map chunk_name (filter (\<lambda>idx. in_root s (chunk_name idx) = None) [0..<nat (m_chunks a)])
   \<and> (\<exists>evs. mlog (fst (merge_outputs_main a s)) = mlog s @ evs @ [Merge_complete])"
proof -
  let ?r = "merge_outputs_main a s"
  let ?s1 = "fold (merge_chunk (overwrite a)) [0..<nat (m_chunks a)] (s\<lparr>dest_exists := True\<rparr>)"
  let ?E = "chunk_entries (in_root s) (m_chunks a)"
  have 1: "snd ?r = Exit0"
    by (simp add: merge_outputs_main_def Let_def)
  then have 2: "exit_status (snd ?r) = 0" by simp
  have 3: "dest_exists (fst ?r)"
    by (simp add: merge_outputs_main_fst)
  have 4: "in_root (fst ?r) = in_root s"
    by (simp add: merge_outputs_main_fst)
  note 5 = merge_outputs_main_dest [of a s]
  have "dom (map_of (dest (fst ?r))) = dom (map_of (dest s)) \<union> dom (map_of ?E)"
  proof (cases "overwrite a")
    case True
    then have "dom (map_of (dest (fst ?r))) = dom (map_of (rev ?E)) \<union> dom (map_of (dest s))"
      by (simp only: 5 if_True dom_map_add)
    then show ?thesis
      by (simp only: dom_map_of_conv_image_fst set_rev Un_commute)
  next
    case False
    then have "dom (map_of (dest (fst ?r))) = dom (map_of (dest s)) \<union> dom (map_of ?E)"
      by (simp only: 5 if_False dom_map_add)
    then show ?thesis .
  qed
  then have 6: "fst ` set (dest (fst ?r)) = fst ` set (dest s) \<union> fst ` set ?E"
    by (simp only: dom_map_of_conv_image_fst)
  have 7: "warnings (mlog (fst ?r))
           = warnings (mlog s)
             @ map chunk_name (filter (\<lambda>idx. in_root s (chunk_name idx) = None) [0..<nat (m_chunks a)])"
    by (simp add: merge_outputs_main_fst warnings_append fold_merge_chunk_warnings)
  obtain evs where "mlog ?s1 = mlog (s\<lparr>dest_exists := True\<rparr>) @ evs"
    using fold_merge_chunk_log by blast
  then have "mlog (fst ?r) = mlog s @ evs @ [Merge_complete]"
    by (simp add: merge_outputs_main_fst)
  then have 8: "\<exists>evs. mlog (fst ?r) = mlog s @ evs @ [Merge_complete]" ..
  from 1 2 3 4 5 6 7 8 show ?thesis by (intro conjI)
qed




section \<open>Properties of the orchestrator\<close>

subsection \<open>Transfers\<close>





subsection \<open>Materialization\<close>








subsection \<open>The processing loop\<close>










subsection \<open>The whole run\<close>

lemma chunkify_zero: "chunkify files 0 = Inl ZeroDivisionError"
  by (simp add: chunkify_def ceil_div_def)



lemma chunkify_negative: "n < 0 \<Longrightarrow> chunkify files n = Inr []"
  by (simp add: chunkify_def ceil_div_def)


text \<open>
  Claim C6, as amended. For a chunk count \<open>N \<le> 0\<close>: with an empty corpus the run ends at once
  with the no-input exit and changes nothing; with files to process and \<open>N = 0\<close> it ends
  with an uncaught \<open>ZeroDivisionError\<close> after it has created the work directory, and creates
  no chunk directory, transfers no file and starts no worker; with files to process and
  \<open>N < 0\<close> it does not fail: it creates the work directory and the output root, no chunk
  directory, transfers nothing, starts no worker, and ends with exit status 0.
\<close>

theorem nonpositive_chunks:
  assumes "chunks a \<le> 0"
  shows "batch_clamp3_main a w s =
     (if discover (source s) = [] then (s\<lparr>log := log s @ [Print No_mp3_found]\<rparr>, Sys_exit_no_input)
      else if chunks a = 0 then (s\<lparr>work_exists := True\<rparr>, Uncaught ZeroDivisionError)
      else (s\<lparr>work_exists := True, out_exists := True,
               log := log s @ [Print All_finished, Print (Merge_hint (chunks a))]\<rparr>, Exit0))"
proof (cases "discover (source s) = []")
  case True
  then show ?thesis by (simp add: batch_clamp3_main_def Let_def)
next
  case ne: False
  show ?thesis
  proof (cases "chunks a = 0")
    case True
    with ne show ?thesis by (simp add: batch_clamp3_main_def Let_def chunkify_zero)
  next
    case False
    with assms have neg: "chunks a < 0" by simp
    then have "nat (chunks a) = 0" by simp
    with ne neg show ?thesis
      by (simp add: batch_clamp3_main_def Let_def chunkify_negative process.simps(1))
  qed
qed

text \<open>The amended C6 at \<open>N = -1\<close> and a corpus of one file.\<close>

theorem nonpositive_chunks_witness:
  "chunks \<lparr>chunks = - 1, move = False\<rparr> \<le> 0
   \<and> batch_clamp3_main \<lparr>chunks = - 1, move = False\<rparr> succeeding_worker
        \<lparr>source = [(([], ''a.mp3''), ''x'')], work_exists = False, work = Map.empty,
         out_exists = False, out = Map.empty, log = []\<rparr>
      = (\<lparr>source = [(([], ''a.mp3''), ''x'')], work_exists = True, work = Map.empty,
          out_exists = True, out = Map.empty,
          log = [Print All_finished, Print (Merge_hint (- 1))]\<rparr>, Exit0)"
proof -
  have h: "chunks \<lparr>chunks = - 1, move = False\<rparr> \<le> 0" by simp
  have d: "discover [(([], ''a.mp3''), ''x'')] = [([], ''a.mp3'')]" by code_simp
  from nonpositive_chunks [OF h, of succeeding_worker
      "\<lparr>source = [(([], ''a.mp3''), ''x'')], work_exists = False, work = Map.empty,
         out_exists = False, out = Map.empty, log = []\<rparr>"] h d
  show ?thesis by simp
qed

text \<open>
  Claim C6 as stated fails: with one file to process, \<open>N = -1\<close> ends with exit status 0, and
  \<open>N = 0\<close> ends with the division error only after the work directory has been created.
\<close>

theorem nonpositive_chunks_counterexample:
  "snd (batch_clamp3_main \<lparr>chunks = - 1, move = False\<rparr> succeeding_worker
          \<lparr>source = [(([], ''a.mp3''), ''x'')], work_exists = False, work = Map.empty,
           out_exists = False, out = Map.empty, log = []\<rparr>) = Exit0
   \<and> snd (batch_clamp3_main \<lparr>chunks = 0, move = False\<rparr> succeeding_worker
          \<lparr>source = [(([], ''a.mp3''), ''x'')], work_exists = False, work = Map.empty,
           out_exists = False, out = Map.empty, log = []\<rparr>) = Uncaught ZeroDivisionError
   \<and> work_exists (fst (batch_clamp3_main \<lparr>chunks = 0, move = False\<rparr> succeeding_worker
          \<lparr>source = [(([], ''a.mp3''), ''x'')], work_exists = False, work = Map.empty,
           out_exists = False, out = Map.empty, log = []\<rparr>))
   \<and> \<not> work_exists \<lparr>source = [(([], ''a.mp3''), ''x'')], work_exists = False, work = Map.empty,
           out_exists = False, out = Map.empty, log = []\<rparr>"
  by code_simp
















subsection \<open>What a fresh chunk directory holds\<close>























text \<open>
  Two inputs of one name in different subdirectories of the source tree end up as one file
  of the chunk directory, the second written over the first.
\<close>

lemma same_name_inputs_example:
  "chunkify (discover [(([''a''], ''x.mp3''), ''one''), (([''b''], ''x.mp3''), ''two'')]) 1
     = Inr [[([''a''], ''x.mp3''), ([''b''], ''x.mp3'')]]
   \<and> work (fst (batch_clamp3_main \<lparr>chunks = 1, move = False\<rparr> succeeding_worker
        (fresh_world [(([''a''], ''x.mp3''), ''one''), (([''b''], ''x.mp3''), ''two'')]))) ''chunk_00''
     = Some [(''x.mp3'', ''two'')]"
  by code_simp



end
